theory Spec2Isabelle
  imports Complex_Main "HOL-Library.Multiset" "HOL-Library.AList"
    "HOL-Library.Char_ord" "HOL-Library.List_Lexorder"
begin

section \<open>The ingestion pipeline of app/main.py\<close>

text \<open>
  The development embeds \<^verbatim>\<open>load_processed_files\<close>, \<^verbatim>\<open>save_processed_files\<close>,
  \<^verbatim>\<open>load_and_merge_csv_files\<close> and the first lines of the main script of
  \<^verbatim>\<open>src/app/main.py\<close>. The files and the directory that the script touches are an
  explicit environment; a run returns the environment it leaves behind, what it has
  shown and read, and either its value or the exception that left it. Library calls
  are modelled by what they return or raise:
  \<^item> \<^verbatim>\<open>os.path.exists\<close>, \<^verbatim>\<open>open\<close>, \<^verbatim>\<open>json.load\<close> and \<^verbatim>\<open>json.dump\<close> through the
    states of the ledger file;
  \<^item> \<^verbatim>\<open>os.listdir\<close> and \<^verbatim>\<open>os.path.getmtime\<close> yield a value or raise \<^verbatim>\<open>OSError\<close>;
  \<^item> \<^verbatim>\<open>pd.read_csv\<close> followed by \<^verbatim>\<open>pd.to_datetime\<close> yields a frame or raises;
  \<^item> \<^verbatim>\<open>sort_values\<close> and the \<^verbatim>\<open>.dt\<close> accessor raise on a timestamp column that is
    not of one datetime dtype;
  \<^item> \<^verbatim>\<open>to_pickle\<close> and \<^verbatim>\<open>open(STATUS_FILE, "w")\<close> raise when the working directory
    refuses the write; \<^verbatim>\<open>read_pickle\<close> raises on a snapshot that is not a pickle.
\<close>

subsection \<open>JSON values and the ledger file\<close>

text \<open>
  What \<^verbatim>\<open>json.load\<close> can return. Python's \<^verbatim>\<open>int\<close> and finite \<^verbatim>\<open>float\<close> are both
  \<open>JNum\<close>, by the number they denote (Python compares the two exactly). A \<^verbatim>\<open>dict\<close> is
  an association list read with \<open>map_of\<close> and written with \<open>AList.update\<close>, which
  keeps the position of an existing key and appends a new one, as Python does; a list
  with a repeated key stands for the dictionary of its first occurrences.
  A file name is the byte string that the file system holds; Python sees it decoded
  as UTF-8 with \<^verbatim>\<open>surrogateescape\<close>, so a byte that is not part of well-formed UTF-8
  is a lone surrogate in the \<^verbatim>\<open>str\<close>.
\<close>

datatype json =
    JNull
  | JBool bool
  | JNum real
  | JStr string
  | JList "json list"
  | JDict "(string \<times> json) list"

text \<open>
  The states of \<^verbatim>\<open>processed_files.json\<close> that the code distinguishes:
  \<open>Absent\<close> (\<^verbatim>\<open>os.path.exists\<close> is false), \<open>NoAccess\<close> (the path exists and
  \<^verbatim>\<open>open\<close> raises), \<open>Garbage\<close> (the file opens and \<^verbatim>\<open>json.load\<close> raises:
  malformed or truncated JSON, undecodable bytes, a read error), \<open>Stored j\<close>
  (\<^verbatim>\<open>json.load\<close> returns \<open>j\<close>).
\<close>

datatype status_file = Absent | NoAccess | Garbage | Stored json

text \<open>
  Exceptions that leave the functions uncaught. \<open>NotDatetimelike\<close> stands for the
  \<^verbatim>\<open>TypeError\<close> of \<^verbatim>\<open>sort_values\<close> and the \<^verbatim>\<open>AttributeError\<close> of \<^verbatim>\<open>.dt\<close> on a
  timestamp column of dtype \<^verbatim>\<open>object\<close>.
\<close>

datatype error =
    OSError
  | AttributeError
  | UnicodeEncodeError
  | UnpicklingError
  | NotDatetimelike

text \<open>
  The text that \<^verbatim>\<open>json.dump(..., ensure_ascii=False)\<close> writes holds every string as
  it is, and the text file encodes it strictly: a lone surrogate, that is a file name
  that is not well-formed UTF-8, raises \<^verbatim>\<open>UnicodeEncodeError\<close> at the write.
\<close>

definition second_lo :: "nat \<Rightarrow> nat" where
  "second_lo b = (if b = 224 then 160 else if b = 240 then 144 else 128)"

definition second_hi :: "nat \<Rightarrow> nat" where
  "second_hi b = (if b = 237 then 159 else if b = 244 then 143 else 191)"

definition second :: "nat \<Rightarrow> nat \<Rightarrow> bool" where
  "second b c \<longleftrightarrow> second_lo b \<le> c \<and> c \<le> second_hi b"

definition cont :: "nat \<Rightarrow> bool" where
  "cont c \<longleftrightarrow> 128 \<le> c \<and> c \<le> 191"

text \<open>
  Well-formed UTF-8 byte sequences: one byte below 128; a lead byte 194 to 223 with one
  continuation byte; 224 to 239 with two; 240 to 244 with three; the byte after the
  lead is further bounded so that overlong forms, surrogates and code points beyond
  U+10FFFF are excluded.
\<close>

fun utf8_wellformed :: "nat list \<Rightarrow> bool" where
  "utf8_wellformed [] = True"
| "utf8_wellformed [b] = (b < 128)"
| "utf8_wellformed [b, c1] =
     (if b < 128 then utf8_wellformed [c1] else 194 \<le> b \<and> b \<le> 223 \<and> cont c1)"
| "utf8_wellformed [b, c1, c2] =
     (if b < 128 then utf8_wellformed [c1, c2]
      else if 194 \<le> b \<and> b \<le> 223 then cont c1 \<and> utf8_wellformed [c2]
      else 224 \<le> b \<and> b \<le> 239 \<and> second b c1 \<and> cont c2)"
| "utf8_wellformed (b # c1 # c2 # c3 # bs) =
     (if b < 128 then utf8_wellformed (c1 # c2 # c3 # bs)
      else if 194 \<le> b \<and> b \<le> 223 then cont c1 \<and> utf8_wellformed (c2 # c3 # bs)
      else if 224 \<le> b \<and> b \<le> 239 then
        second b c1 \<and> cont c2 \<and> utf8_wellformed (c3 # bs)
      else 240 \<le> b \<and> b \<le> 244 \<and> second b c1 \<and> cont c2 \<and> cont c3 \<and>
        utf8_wellformed bs)"

definition encodable :: "string \<Rightarrow> bool" where
  "encodable s = utf8_wellformed (map of_char s)"

fun json_encodable :: "json \<Rightarrow> bool" where
  "json_encodable (JStr s) = encodable s"
| "json_encodable (JList xs) = list_all json_encodable xs"
| "json_encodable (JDict kvs) =
     list_all (\<lambda>kv. encodable (fst kv) \<and> json_encodable (snd kv)) kvs"
| "json_encodable _ = True"

subsection \<open>Frames\<close>

text \<open>
  A row of a frame: the column \<^verbatim>\<open>"measurement date"\<close> after \<^verbatim>\<open>pd.to_datetime\<close>
  (nanoseconds since the epoch, \<open>None\<close> for \<^verbatim>\<open>NaT\<close>), and the other columns by name
  (\<open>None\<close> for \<^verbatim>\<open>NaN\<close> and for a column the row's file did not have, which
  \<^verbatim>\<open>pd.concat\<close> fills with \<^verbatim>\<open>NaN\<close>). The helper column holding the date only is the
  value \<open>date_only\<close> of a row and is not stored.
\<close>

record 'v row =
  ts :: "int option"
  cells :: "string \<Rightarrow> 'v option"

definition ns_per_day :: int where
  "ns_per_day = 86400000000000"

definition date_only :: "'v row \<Rightarrow> int option" where
  "date_only r = map_option (\<lambda>t. t div ns_per_day) (ts r)"

definition stamp :: "'v row \<Rightarrow> int" where
  "stamp r = (case ts r of None \<Rightarrow> 0 | Some t \<Rightarrow> t)"

text \<open>
  The dtype of the timestamp column that \<^verbatim>\<open>pd.to_datetime\<close> gives a file: naive
  \<^verbatim>\<open>datetime64[ns]\<close>, \<^verbatim>\<open>datetime64[ns, tz]\<close> of a fixed offset (in minutes; the
  timestamps of its rows are then the wall-clock times of that offset, which is what
  \<^verbatim>\<open>.dt.date\<close> reads), or \<^verbatim>\<open>object\<close> for a file that mixes offsets. \<^verbatim>\<open>pd.concat\<close>
  keeps a dtype that both sides share and gives \<^verbatim>\<open>object\<close> otherwise (releases
  of pandas differ on whether a frame without rows takes part in this; here it does);
  the empty \<^verbatim>\<open>pd.DataFrame()\<close> of line 60 has no such column.
\<close>

datatype ts_dtype = Naive | Aware int | Object

record 'v frame =
  frame_dtype :: ts_dtype
  frame_rows :: "'v row list"

fun concat_dtype :: "ts_dtype option \<Rightarrow> ts_dtype \<Rightarrow> ts_dtype" where
  "concat_dtype None t = t"
| "concat_dtype (Some a) t = (if a = t then a else Object)"

subsection \<open>The environment of a run\<close>

text \<open>
  The snapshot \<^verbatim>\<open>cached_merged_df.pkl\<close> is missing, is a file that \<^verbatim>\<open>read_pickle\<close>
  cannot load, or holds a frame. \<open>writable\<close> says whether the working directory
  accepts the writes of the run; \<open>listdir\<close> and \<open>getmtime\<close> are \<open>None\<close> where the
  call raises (no data directory; a dangling link).
\<close>

datatype 'v cache = NoCache | BadCache | Cache "'v row list"

record 'v env =
  status_file :: status_file
  cache_file :: "'v cache"
  writable :: bool
  listdir :: "string list option"
  getmtime :: "string \<Rightarrow> real option"
  read_csv :: "string \<Rightarrow> string + 'v frame"

subsection \<open>load_processed_files and save_processed_files\<close>

definition load_processed_files :: "'v env \<Rightarrow> error + json" where
  "load_processed_files e =
     (case status_file e of
        Absent \<Rightarrow> Inr (JDict [])
      | NoAccess \<Rightarrow> Inl OSError
      | Garbage \<Rightarrow> Inr (JDict [])
      | Stored data \<Rightarrow>
          (case data of JList xs \<Rightarrow> Inr (JDict []) | _ \<Rightarrow> Inr data))"

text \<open>
  \<^verbatim>\<open>open(STATUS_FILE, "w")\<close> raises and leaves the file alone when the write is
  refused. Once the file is open it is empty, and \<^verbatim>\<open>json.dump\<close> writes it piece by
  piece: when a string cannot be encoded the exception leaves a truncated text behind.
  Otherwise the file holds the text of the dictionary, which \<^verbatim>\<open>json.load\<close> reads
  back as the same value (the contract of the \<^verbatim>\<open>json\<close> module for strings and
  finite numbers). The result is the environment and the exception, if any.
\<close>

definition save_processed_files ::
  "(string \<times> json) list \<Rightarrow> 'v env \<Rightarrow> 'v env \<times> error option" where
  "save_processed_files file_dict e =
     (if status_file e = NoAccess \<or> \<not> writable e then (e, Some OSError)
      else if json_encodable (JDict file_dict)
        then (e\<lparr>status_file := Stored (JDict file_dict)\<rparr>, None)
        else (e\<lparr>status_file := Garbage\<rparr>, Some UnicodeEncodeError))"

subsection \<open>The scan of the data directory\<close>

definition endswith :: "string \<Rightarrow> string \<Rightarrow> bool" where
  "endswith s suf =
     (length suf \<le> length s \<and> drop (length s - length suf) s = suf)"

text \<open>Python's \<^verbatim>\<open>==\<close> between a loaded JSON value and a float.\<close>

fun py_eq :: "json \<Rightarrow> real \<Rightarrow> bool" where
  "py_eq (JNum x) m = (x = m)"
| "py_eq (JBool b) m = ((if b then 1 else 0) = m)"
| "py_eq _ m = False"

text \<open>The test of line 70: \<^verbatim>\<open>fname in processed and processed[fname] == mtime\<close>.\<close>

definition unchanged :: "(string \<times> json) list \<Rightarrow> string \<Rightarrow> real \<Rightarrow> bool" where
  "unchanged processed fname mtime =
     (case map_of processed fname of None \<Rightarrow> False | Some v \<Rightarrow> py_eq v mtime)"

text \<open>
  The variables of the loop, the dtype of the timestamp column of \<^verbatim>\<open>merged_df\<close>, the
  exception that has left the loop, if any, and two logs of its effects: the calls of
  \<^verbatim>\<open>st.error\<close> (file name and exception text) and the files handed to
  \<^verbatim>\<open>pd.read_csv\<close>.
\<close>

record 'v scan =
  merged_df :: "'v row list"
  merged_dtype :: "ts_dtype option"
  updated_processed :: "(string \<times> json) list"
  new_data_loaded :: bool
  raised :: "error option"
  st_errors :: "(string \<times> string) list"
  reads :: "string list"

definition scan_init :: "(string \<times> json) list \<Rightarrow> 'v scan" where
  "scan_init processed =
     \<lparr>merged_df = [], merged_dtype = None, updated_processed = processed,
      new_data_loaded = False, raised = None, st_errors = [], reads = []\<rparr>"

text \<open>
  One turn of the loop of lines 64 to 80. After an exception no further turn runs.
  \<^verbatim>\<open>os.path.getmtime\<close> stands outside the \<^verbatim>\<open>try\<close>.
\<close>

definition scan_step ::
  "(string \<times> json) list \<Rightarrow> 'v env \<Rightarrow> 'v scan \<Rightarrow> string \<Rightarrow> 'v scan" where
  "scan_step processed e s fname =
     (if raised s \<noteq> None then s
      else if \<not> endswith fname ''.csv'' then s
      else (case getmtime e fname of
          None \<Rightarrow> s\<lparr>raised := Some OSError\<rparr>
        | Some mtime \<Rightarrow>
            if unchanged processed fname mtime then s
            else (case read_csv e fname of
                Inr df \<Rightarrow>
                  s\<lparr>merged_df := merged_df s @ frame_rows df,
                    merged_dtype := Some (concat_dtype (merged_dtype s) (frame_dtype df)),
                    updated_processed :=
                      AList.update fname (JNum mtime) (updated_processed s),
                    new_data_loaded := True,
                    reads := reads s @ [fname]\<rparr>
              | Inl msg \<Rightarrow>
                  s\<lparr>st_errors := st_errors s @ [(fname, msg)],
                    reads := reads s @ [fname]\<rparr>)))"

text \<open>
  \<^verbatim>\<open>sorted\<close> orders the names by code point, which for well-formed UTF-8 names is
  the order of their bytes.
\<close>

definition scan_files :: "(string \<times> json) list \<Rightarrow> 'v env \<Rightarrow> string list \<Rightarrow> 'v scan" where
  "scan_files processed e names =
     foldl (scan_step processed e) (scan_init processed) (sort names)"

subsection \<open>Sorting, grouping by day and keeping the last\<close>

text \<open>
  \<^verbatim>\<open>sort_values\<close> orders the rows that have a timestamp and puts the rows without
  one last, in their order. Its default algorithm (\<^verbatim>\<open>kind="quicksort"\<close>) is not
  promised to be stable, so the ordering of the timestamped rows is a parameter \<open>srt\<close>,
  of which \<open>sorts_by_ts\<close> says what any sort gives: the same rows, ascending.
\<close>

definition sort_values :: "('v row list \<Rightarrow> 'v row list) \<Rightarrow> 'v row list \<Rightarrow> 'v row list" where
  "sort_values srt rows =
     srt (filter (\<lambda>r. ts r \<noteq> None) rows) @ filter (\<lambda>r. ts r = None) rows"

definition sorts_by_ts :: "('v row list \<Rightarrow> 'v row list) \<Rightarrow> bool" where
  "sorts_by_ts srt \<longleftrightarrow>
     (\<forall>xs. mset (srt xs) = mset xs \<and> sorted (map stamp (srt xs)))"

text \<open>A stable instance, \<^verbatim>\<open>kind="stable"\<close>.\<close>

definition stable_sort :: "'v row list \<Rightarrow> 'v row list" where
  "stable_sort = sort_key stamp"

text \<open>
  \<^verbatim>\<open>GroupBy.last\<close> takes, column by column, the last entry of the group that is
  not missing.
\<close>

definition last_valid :: "'a option list \<Rightarrow> 'a option" where
  "last_valid xs = foldl (\<lambda>acc x. case x of None \<Rightarrow> acc | Some v \<Rightarrow> Some v) None xs"

definition agg_last :: "'v row list \<Rightarrow> 'v row" where
  "agg_last grp =
     \<lparr>ts = last_valid (map ts grp),
      cells = (\<lambda>c. last_valid (map (\<lambda>r. cells r c) grp))\<rparr>"

text \<open>
  \<^verbatim>\<open>groupby(..., as_index=False)\<close> with its defaults: the groups are the days that
  occur, ascending; rows whose key is missing belong to no group.
\<close>

definition day_keys :: "'v row list \<Rightarrow> int list" where
  "day_keys rows = sort (remdups (List.map_filter date_only rows))"

definition day_group :: "'v row list \<Rightarrow> int \<Rightarrow> 'v row list" where
  "day_group rows d = filter (\<lambda>r. date_only r = Some d) rows"

definition groupby_last :: "'v row list \<Rightarrow> 'v row list" where
  "groupby_last rows = map (\<lambda>d. agg_last (day_group rows d)) (day_keys rows)"

text \<open>Lines 83 to 86.\<close>

definition dedup :: "('v row list \<Rightarrow> 'v row list) \<Rightarrow> 'v row list \<Rightarrow> 'v row list" where
  "dedup srt rows = sort_values srt (groupby_last (sort_values srt rows))"

subsection \<open>load_and_merge_csv_files and the head of the script\<close>

text \<open>
  A run: the environment it leaves, the messages shown, the files read, and the
  exception raised or the pair returned.
\<close>

record 'v run =
  env_after :: "'v env"
  errors_shown :: "(string \<times> string) list"
  files_read :: "string list"
  outcome :: "error + 'v row list \<times> bool"

definition stop :: "'v env \<Rightarrow> 'v scan \<Rightarrow> error + 'v row list \<times> bool \<Rightarrow> 'v run" where
  "stop e s res =
     \<lparr>env_after = e, errors_shown = st_errors s, files_read = reads s, outcome = res\<rparr>"

text \<open>
  Lines 82 to 94. The snapshot is written before the ledger, so a failing ledger
  write leaves the new snapshot behind.
\<close>

definition finish :: "('v row list \<Rightarrow> 'v row list) \<Rightarrow> 'v env \<Rightarrow> 'v scan \<Rightarrow> 'v run" where
  "finish srt e s =
     (case raised s of
        Some err \<Rightarrow> stop e s (Inl err)
      | None \<Rightarrow>
          if new_data_loaded s then
            (if merged_dtype s = Some Object then stop e s (Inl NotDatetimelike)
             else let deduped_df = dedup srt (merged_df s) in
               if writable e then
                 (case save_processed_files (updated_processed s)
                         (e\<lparr>cache_file := Cache deduped_df\<rparr>) of
                    (e', Some err) \<Rightarrow> stop e' s (Inl err)
                  | (e', None) \<Rightarrow> stop e' s (Inr (deduped_df, True)))
               else stop e s (Inl OSError))
          else (case cache_file e of
              Cache cached \<Rightarrow> stop e s (Inr (cached, False))
            | BadCache \<Rightarrow> stop e s (Inl UnpicklingError)
            | NoCache \<Rightarrow> stop e s (Inr ([], False))))"

definition load_and_merge_csv_files ::
  "('v row list \<Rightarrow> 'v row list) \<Rightarrow> 'v env \<Rightarrow> 'v run" where
  "load_and_merge_csv_files srt e =
     (case load_processed_files e of
        Inl err \<Rightarrow> stop e (scan_init []) (Inl err)
      | Inr (JDict processed) \<Rightarrow>
          (case listdir e of
             None \<Rightarrow> stop e (scan_init processed) (Inl OSError)
           | Some names \<Rightarrow> finish srt e (scan_files processed e names))
      | Inr _ \<Rightarrow> stop e (scan_init []) (Inl AttributeError))"

text \<open>Lines 98 to 107: what the page shows after the load.\<close>

datatype 'v page = NoValidData | NewDataLoaded "'v row list" | PreviousData "'v row list"

definition main :: "('v row list \<Rightarrow> 'v row list) \<Rightarrow> 'v env \<Rightarrow> error + 'v page" where
  "main srt e =
     (case outcome (load_and_merge_csv_files srt e) of
        Inl err \<Rightarrow> Inl err
      | Inr (df, is_new_data) \<Rightarrow>
          Inr (if df = [] then NoValidData
               else if is_new_data then NewDataLoaded df
               else PreviousData df))"

subsection \<open>Notions used in the statements\<close>

text \<open>
  A file of the directory reaches \<^verbatim>\<open>pd.read_csv\<close> when neither \<^verbatim>\<open>continue\<close> of the
  loop is taken.
\<close>

definition needs_processing :: "(string \<times> json) list \<Rightarrow> 'v env \<Rightarrow> string \<Rightarrow> bool" where
  "needs_processing processed e fname \<longleftrightarrow>
     endswith fname ''.csv'' \<and>
     (case getmtime e fname of None \<Rightarrow> False | Some mtime \<Rightarrow> \<not> unchanged processed fname mtime)"

text \<open>Every \<^verbatim>\<open>.csv\<close> entry of the directory can be stat'ed.\<close>

definition stat_ok :: "'v env \<Rightarrow> string list \<Rightarrow> bool" where
  "stat_ok e names =
     list_all (\<lambda>f. if endswith f ''.csv'' then getmtime e f \<noteq> None else True) names"

text \<open>The rows a file contributes to \<^verbatim>\<open>merged_df\<close>, and the message it causes.\<close>

definition rows_of :: "'v env \<Rightarrow> string \<Rightarrow> 'v row list" where
  "rows_of e fname = (case read_csv e fname of Inl msg \<Rightarrow> [] | Inr df \<Rightarrow> frame_rows df)"

definition message_of :: "'v env \<Rightarrow> string \<Rightarrow> (string \<times> string) list" where
  "message_of e fname =
     (case read_csv e fname of Inl msg \<Rightarrow> [(fname, msg)] | Inr df \<Rightarrow> [])"

definition parses :: "'v env \<Rightarrow> string \<Rightarrow> bool" where
  "parses e fname = (case read_csv e fname of Inl msg \<Rightarrow> False | Inr df \<Rightarrow> True)"

text \<open>Every file of the directory that parses has naive timestamps.\<close>

definition all_naive :: "'v env \<Rightarrow> string list \<Rightarrow> bool" where
  "all_naive e names =
     list_all (\<lambda>f. case read_csv e f of Inl msg \<Rightarrow> True | Inr df \<Rightarrow> frame_dtype df = Naive) names"

text \<open>
  Nothing outside the \<^verbatim>\<open>try\<close> stands in the way of a run: every entry can be
  stat'ed, the timestamps are naive, the writes are accepted, and the names and the
  ledger can be encoded.
\<close>

definition unhindered :: "'v env \<Rightarrow> string list \<Rightarrow> (string \<times> json) list \<Rightarrow> bool" where
  "unhindered e names d \<longleftrightarrow>
     stat_ok e names \<and> all_naive e names \<and> writable e \<and> list_all encodable names \<and>
     json_encodable (JDict d)"

text \<open>A well-formed ledger maps file names to numbers.\<close>

definition well_formed :: "(string \<times> json) list \<Rightarrow> bool" where
  "well_formed d = list_all (\<lambda>(k, v). case v of JNum x \<Rightarrow> True | _ \<Rightarrow> False) d"


subsection \<open>Sample data\<close>

text \<open>
  Rows of 2024-01-01 at 08:00 and at 20:00 and of 2024-01-02 at 08:00 (the days 19723 and
  19724 since the epoch), the second one also with its body-fat cell empty.
\<close>

definition jan1_0800 :: "real row" where
  "jan1_0800 =
     \<lparr>ts = Some 1704096000000000000, cells = [''weight'' \<mapsto> 60, ''fat'' \<mapsto> 20]\<rparr>"

definition jan1_2000 :: "real row" where
  "jan1_2000 =
     \<lparr>ts = Some 1704139200000000000, cells = [''weight'' \<mapsto> 59.5, ''fat'' \<mapsto> 19]\<rparr>"

definition jan1_2000_gap :: "real row" where
  "jan1_2000_gap = \<lparr>ts = Some 1704139200000000000, cells = [''weight'' \<mapsto> 59.5]\<rparr>"

definition jan2_0800 :: "real row" where
  "jan2_0800 =
     \<lparr>ts = Some 1704182400000000000, cells = [''weight'' \<mapsto> 59, ''fat'' \<mapsto> 19]\<rparr>"

text \<open>
  Two readings with the same full timestamp, and a sort that is ascending and keeps all
  rows but leaves equal timestamps in the reverse of their input order.
\<close>

definition tie_a :: "real row" where
  "tie_a = \<lparr>ts = Some 1704096000000000000, cells = [''weight'' \<mapsto> 60]\<rparr>"

definition tie_b :: "real row" where
  "tie_b = \<lparr>ts = Some 1704096000000000000, cells = [''weight'' \<mapsto> 61]\<rparr>"

definition reverse_sort :: "'v row list \<Rightarrow> 'v row list" where
  "reverse_sort xs = sort_key stamp (rev xs)"

text \<open>Nothing on disk: no ledger, no snapshot, an empty data directory.\<close>

definition cold_env :: "real env" where
  "cold_env = \<lparr>status_file = Absent, cache_file = NoCache, writable = True,
     listdir = Some [], getmtime = (\<lambda>f. None), read_csv = (\<lambda>f. Inl ''No such file'')\<rparr>"

text \<open>
  After a first run over \<^verbatim>\<open>a.csv\<close> (two readings of 1 January), a second export
  \<^verbatim>\<open>b.csv\<close> (one reading of 2 January) has been added.
\<close>

definition second_export_env :: "real env" where
  "second_export_env =
     \<lparr>status_file = Stored (JDict [(''a.csv'', JNum 100)]),
      cache_file = Cache [jan1_2000],
      writable = True,
      listdir = Some [''b.csv'', ''a.csv''],
      getmtime = (\<lambda>f. if f = ''a.csv'' then Some 100
                     else if f = ''b.csv'' then Some 200 else None),
      read_csv = (\<lambda>f. if f = ''a.csv''
                       then Inr \<lparr>frame_dtype = Naive, frame_rows = [jan1_0800, jan1_2000]\<rparr>
                     else if f = ''b.csv''
                       then Inr \<lparr>frame_dtype = Naive, frame_rows = [jan2_0800]\<rparr>
                     else Inl ''No such file'')\<rparr>"




text \<open>
  A file whose name is the byte 255 followed by \<^verbatim>\<open>.csv\<close>: not UTF-8, so Python holds
  it as the lone surrogate U+DCFF and the four characters.
\<close>

definition odd_name :: string where
  "odd_name = CHR 0xFF # ''.csv''"

text \<open>A first run over a directory that holds one such file, which parses.\<close>

definition odd_env :: "real env" where
  "odd_env =
     \<lparr>status_file = Absent, cache_file = NoCache, writable = True,
      listdir = Some [odd_name],
      getmtime = (\<lambda>f. if f = odd_name then Some 100 else None),
      read_csv = (\<lambda>f. if f = odd_name
                       then Inr \<lparr>frame_dtype = Naive, frame_rows = [jan2_0800]\<rparr>
                     else Inl ''No such file'')\<rparr>"


section \<open>Properties of the merge\<close>

subsection \<open>Keeping the last valid entry\<close>

lemma last_valid_snoc:
  "last_valid (xs @ [x]) = (case x of None \<Rightarrow> last_valid xs | Some v \<Rightarrow> Some v)"
  by (cases x) (simp_all add: last_valid_def)

lemma last_valid_last: "xs \<noteq> [] \<Longrightarrow> last xs = Some v \<Longrightarrow> last_valid xs = Some v"
  by (induction xs rule: rev_induct) (simp_all add: last_valid_snoc)


lemma last_valid_None: "last_valid xs = None \<longleftrightarrow> (\<forall>x\<in>set xs. x = None)"
  by (induction xs rule: rev_induct) (auto simp: last_valid_snoc last_valid_def split: option.splits)

subsection \<open>Days, sorting and groups\<close>

lemma ns_per_day_pos: "0 < ns_per_day"
  by (simp add: ns_per_day_def)

lemma date_only_stamp: "date_only r = Some d \<Longrightarrow> stamp r div ns_per_day = d"
  by (auto simp: date_only_def stamp_def)

lemma date_only_ts: "date_only r = Some d \<Longrightarrow> ts r \<noteq> None"
  by (auto simp: date_only_def)

lemma date_only_None: "date_only r = None \<longleftrightarrow> ts r = None"
  by (simp add: date_only_def)

lemma mset_sort_values: "sorts_by_ts srt \<Longrightarrow> mset (sort_values srt rows) = mset rows"
  by (simp add: sort_values_def sorts_by_ts_def)

lemma set_sort_values: "sorts_by_ts srt \<Longrightarrow> set (sort_values srt rows) = set rows"
  by (metis mset_sort_values set_mset_mset)

lemma sort_values_no_NaT:
  "\<forall>r\<in>set rows. ts r \<noteq> None \<Longrightarrow> sort_values srt rows = srt rows"
  by (simp add: sort_values_def)



lemma set_day_group: "set (day_group rows d) = {r \<in> set rows. date_only r = Some d}"
  by (simp add: day_group_def)

lemma set_day_keys: "set (day_keys rows) = {d. \<exists>r\<in>set rows. date_only r = Some d}"
  by (force simp: day_keys_def List.map_filter_def image_iff)

lemma sorted_day_keys: "sorted (day_keys rows)"
  by (simp add: day_keys_def)

lemma distinct_day_keys: "distinct (day_keys rows)"
  by (simp add: day_keys_def)

lemma day_keys_cong: "set xs = set ys \<Longrightarrow> day_keys xs = day_keys ys"
  by (rule sorted_distinct_set_unique)
    (simp_all add: sorted_day_keys distinct_day_keys set_day_keys)

lemma day_keys_sort_values: "sorts_by_ts srt \<Longrightarrow> day_keys (sort_values srt rows) = day_keys rows"
  by (rule day_keys_cong) (rule set_sort_values)


lemma ts_agg_last:
  assumes "g \<noteq> []" and "\<forall>r\<in>set g. ts r \<noteq> None"
  shows "ts (agg_last g) = ts (last g)"
proof -
  from assms obtain t where t: "ts (last g) = Some t"
    by (meson last_in_set not_Some_eq)
  with assms(1) have "last_valid (map ts g) = Some t"
    by (intro last_valid_last) (simp_all add: last_map)
  with t show ?thesis by (simp add: agg_last_def)
qed

lemma cells_agg_last: "cells (agg_last g) c = last_valid (map (\<lambda>r. cells r c) g)"
  by (simp add: agg_last_def)

lemma day_group_nonempty: "d \<in> set (day_keys rows) \<Longrightarrow> day_group rows d \<noteq> []"
  by (auto simp: set_day_keys day_group_def filter_empty_conv)

lemma date_only_agg_last:
  assumes "d \<in> set (day_keys rows)"
  shows "date_only (agg_last (day_group rows d)) = Some d"
proof -
  let ?g = "day_group rows d"
  have ne: "?g \<noteq> []" using assms by (rule day_group_nonempty)
  have all: "\<forall>r\<in>set ?g. date_only r = Some d" by (simp add: set_day_group)
  then have "\<forall>r\<in>set ?g. ts r \<noteq> None" by (auto dest: date_only_ts)
  with ne have "ts (agg_last ?g) = ts (last ?g)" by (rule ts_agg_last)
  moreover have "date_only (last ?g) = Some d" using ne all by simp
  ultimately show ?thesis by (simp add: date_only_def)
qed

lemma date_only_groupby_last: "map date_only (groupby_last rows) = map Some (day_keys rows)"
  by (simp add: groupby_last_def date_only_agg_last)

lemma day_of_groupby_last:
  "map (\<lambda>r. stamp r div ns_per_day) (groupby_last rows) = day_keys rows"
  by (simp add: groupby_last_def date_only_agg_last date_only_stamp map_idI)

lemma ts_groupby_last: "r \<in> set (groupby_last rows) \<Longrightarrow> ts r \<noteq> None"
  by (auto simp: groupby_last_def dest!: date_only_agg_last date_only_ts)

lemma sorted_days: "sorted (map stamp xs) \<Longrightarrow> sorted (map (\<lambda>r. stamp r div ns_per_day) xs)"
  unfolding sorted_map
  by (erule sorted_wrt_mono_rel[rotated]) (simp add: zdiv_mono1 ns_per_day_pos)

lemma final_sort_id:
  assumes "sorts_by_ts srt"
  shows "sort_values srt (groupby_last rows) = groupby_last rows"
proof -
  let ?G = "groupby_last rows" and ?day = "\<lambda>r::'a row. stamp r div ns_per_day"
  have sv: "sort_values srt ?G = srt ?G"
    by (rule sort_values_no_NaT) (simp add: ts_groupby_last)
  have ms: "mset (srt ?G) = mset ?G" and so: "sorted (map stamp (srt ?G))"
    using assms by (simp_all add: sorts_by_ts_def)
  have st: "set (srt ?G) = set ?G" using ms by (rule mset_eq_setD)
  have dG: "distinct (map ?day ?G)" and sG: "sorted (map ?day ?G)"
    by (simp_all add: day_of_groupby_last distinct_day_keys sorted_day_keys)
  have "mset (map ?day (srt ?G)) = mset (map ?day ?G)" using ms by simp
  then have dS: "distinct (map ?day (srt ?G))"
    using dG mset_eq_imp_distinct_iff by blast
  have inj: "inj_on ?day (set (srt ?G) \<union> set ?G)"
    using dG st by (simp add: distinct_map)
  have "srt ?G = ?G"
    using inj sorted_days[OF so] dS sG dG st by (rule map_sorted_distinct_set_unique)
  with sv show ?thesis by simp
qed

lemma dedup_eq:
  "sorts_by_ts srt \<Longrightarrow> dedup srt rows = groupby_last (sort_values srt rows)"
  by (simp add: dedup_def final_sort_id)

lemma sorts_by_ts_stable_sort: "sorts_by_ts stable_sort"
  by (simp add: sorts_by_ts_def stable_sort_def)

subsection \<open>The deduplicated frame\<close>


lemma dedup_groups:
  assumes "sorts_by_ts srt"
  shows "dedup srt rows =
     map (\<lambda>d. agg_last (day_group (sort_values srt rows) d)) (day_keys rows)"
  using assms by (simp add: dedup_eq groupby_last_def day_keys_sort_values)

lemma date_only_dedup:
  assumes "sorts_by_ts srt"
  shows "map date_only (dedup srt rows) = map Some (day_keys rows)"
  using assms by (simp add: dedup_eq date_only_groupby_last day_keys_sort_values)


lemma agg_last_complete:
  assumes ne: "g \<noteq> []" and ts: "\<forall>r\<in>set g. ts r \<noteq> None"
    and full: "\<forall>c. cells (last g) c = None \<longrightarrow> (\<forall>y\<in>set g. cells y c = None)"
  shows "agg_last g = last g"
proof (rule row.equality)
  show "ts (agg_last g) = ts (last g)" using ne ts by (rule ts_agg_last)
  show "cells (agg_last g) = cells (last g)"
  proof
    fix c
    show "cells (agg_last g) c = cells (last g) c"
    proof (cases "cells (last g) c")
      case None
      with full have "\<forall>y\<in>set g. cells y c = None" by simp
      then have "last_valid (map (\<lambda>r. cells r c) g) = None"
        by (simp add: last_valid_None)
      with None show ?thesis by (simp add: cells_agg_last)
    next
      case (Some v)
      with ne have "last_valid (map (\<lambda>r. cells r c) g) = Some v"
        by (intro last_valid_last) (simp_all add: last_map)
      with Some show ?thesis by (simp add: cells_agg_last)
    qed
  qed
qed simp


subsection \<open>Encodable ledgers\<close>

lemma json_encodable_update:
  "encodable k \<Longrightarrow> json_encodable v \<Longrightarrow> json_encodable (JDict al) \<Longrightarrow>
   json_encodable (JDict (AList.update k v al))"
  by (induction al) (auto simp: AList.update.simps)

lemma well_formed_encodable:
  "well_formed d \<Longrightarrow> list_all encodable (map fst d) \<Longrightarrow> json_encodable (JDict d)"
  by (induction d) (auto simp: well_formed_def split: json.splits)

lemma sample_names_encodable:
  "encodable ''a.csv''" "encodable ''b.csv''" "encodable ''old.csv''"
  "encodable ''good.csv''" "encodable ''bad.csv''"
  by (simp_all add: encodable_def)

lemma odd_name_not_encodable: "\<not> encodable odd_name"
  by (simp add: encodable_def odd_name_def)

subsection \<open>The scan\<close>

lemma stat_ok_iff:
  "stat_ok e names \<longleftrightarrow> (\<forall>f\<in>set names. endswith f ''.csv'' \<longrightarrow> getmtime e f \<noteq> None)"
  by (auto simp: stat_ok_def list_all_iff)

lemma stat_ok_sort: "stat_ok e (sort names) = stat_ok e names"
  by (simp add: stat_ok_iff)

lemma stat_ok_Cons:
  "stat_ok e (f # fs) \<longleftrightarrow> (endswith f ''.csv'' \<longrightarrow> getmtime e f \<noteq> None) \<and> stat_ok e fs"
  by (simp add: stat_ok_def)

lemma scan_step_cases:
  assumes "raised s = None" and "endswith f ''.csv'' \<longrightarrow> getmtime e f \<noteq> None"
  shows "scan_step d e s f =
     (if needs_processing d e f then
        s\<lparr>merged_df := merged_df s @ rows_of e f,
          merged_dtype :=
            (case read_csv e f of
               Inl msg \<Rightarrow> merged_dtype s
             | Inr df \<Rightarrow> Some (concat_dtype (merged_dtype s) (frame_dtype df))),
          updated_processed :=
            (if parses e f
             then AList.update f (JNum (the (getmtime e f))) (updated_processed s)
             else updated_processed s),
          new_data_loaded := (new_data_loaded s \<or> parses e f),
          st_errors := st_errors s @ message_of e f,
          reads := reads s @ [f]\<rparr>
      else s)"
  using assms
  by (auto simp: scan_step_def needs_processing_def rows_of_def parses_def message_of_def
      split: sum.splits option.splits)

lemma raised_scan_step:
  assumes "raised s = None" and "endswith f ''.csv'' \<longrightarrow> getmtime e f \<noteq> None"
  shows "raised (scan_step d e s f) = None"
  using assms by (simp add: scan_step_cases)

lemma scan_step_raised: "raised s \<noteq> None \<Longrightarrow> scan_step d e s f = s"
  by (simp add: scan_step_def)

lemma foldl_scan_step_raised: "raised s \<noteq> None \<Longrightarrow> foldl (scan_step d e) s fs = s"
  by (induction fs) (simp_all add: scan_step_raised)

lemma raised_foldl:
  "raised s = None \<Longrightarrow> raised (foldl (scan_step d e) s fs) = None \<longleftrightarrow> stat_ok e fs"
proof (induction fs arbitrary: s)
  case Nil
  then show ?case by (simp add: stat_ok_def)
next
  case (Cons f fs)
  show ?case
  proof (cases "endswith f ''.csv'' \<longrightarrow> getmtime e f \<noteq> None")
    case True
    with Cons.prems have "raised (scan_step d e s f) = None" by (rule raised_scan_step)
    from Cons.IH[OF this] True show ?thesis by (simp add: stat_ok_Cons)
  next
    case False
    with Cons.prems have "raised (scan_step d e s f) \<noteq> None"
      by (auto simp: scan_step_def)
    then have "foldl (scan_step d e) (scan_step d e s f) fs = scan_step d e s f"
      by (rule foldl_scan_step_raised)
    with False \<open>raised (scan_step d e s f) \<noteq> None\<close> show ?thesis
      by (simp add: stat_ok_Cons)
  qed
qed

lemma reads_foldl:
  "raised s = None \<Longrightarrow> stat_ok e fs \<Longrightarrow>
   reads (foldl (scan_step d e) s fs) = reads s @ filter (needs_processing d e) fs"
  by (induction fs arbitrary: s) (simp_all add: stat_ok_Cons scan_step_cases)

lemma merged_df_foldl:
  "raised s = None \<Longrightarrow> stat_ok e fs \<Longrightarrow>
   merged_df (foldl (scan_step d e) s fs) =
     merged_df s @ concat (map (rows_of e) (filter (needs_processing d e) fs))"
  by (induction fs arbitrary: s) (simp_all add: stat_ok_Cons scan_step_cases)


lemma new_data_loaded_foldl:
  "raised s = None \<Longrightarrow> stat_ok e fs \<Longrightarrow>
   new_data_loaded (foldl (scan_step d e) s fs) \<longleftrightarrow>
     new_data_loaded s \<or> (\<exists>f\<in>set fs. needs_processing d e f \<and> parses e f)"
  by (induction fs arbitrary: s) (auto simp: stat_ok_Cons scan_step_cases)

lemma updated_processed_foldl:
  "raised s = None \<Longrightarrow> stat_ok e fs \<Longrightarrow>
   map_of (updated_processed (foldl (scan_step d e) s fs)) k =
     (if k \<in> set fs \<and> needs_processing d e k \<and> parses e k
      then map_option JNum (getmtime e k)
      else map_of (updated_processed s) k)"
proof (induction fs arbitrary: s)
  case Nil
  then show ?case by simp
next
  case (Cons f fs)
  from Cons.prems have ok: "endswith f ''.csv'' \<longrightarrow> getmtime e f \<noteq> None" and rest: "stat_ok e fs"
    by (simp_all add: stat_ok_Cons)
  have r: "raised (scan_step d e s f) = None" using Cons.prems(1) ok by (rule raised_scan_step)
  have step: "map_of (updated_processed (scan_step d e s f)) k =
      (if k = f \<and> needs_processing d e f \<and> parses e f
       then map_option JNum (getmtime e f) else map_of (updated_processed s) k)"
    by (auto simp: scan_step_cases[OF Cons.prems(1) ok] update_conv' needs_processing_def
        split: option.splits)
  have "map_of (updated_processed (foldl (scan_step d e) (scan_step d e s f) fs)) k =
      (if k \<in> set fs \<and> needs_processing d e k \<and> parses e k
       then map_option JNum (getmtime e k)
       else map_of (updated_processed (scan_step d e s f)) k)"
    using r rest by (rule Cons.IH)
  with step show ?case by auto
qed

lemma encodable_foldl:
  "raised s = None \<Longrightarrow> stat_ok e fs \<Longrightarrow> list_all encodable fs \<Longrightarrow>
   json_encodable (JDict (updated_processed s)) \<Longrightarrow>
   json_encodable (JDict (updated_processed (foldl (scan_step d e) s fs)))"
proof (induction fs arbitrary: s)
  case Nil
  then show ?case by simp
next
  case (Cons f fs)
  from Cons.prems have ok: "endswith f ''.csv'' \<longrightarrow> getmtime e f \<noteq> None" and rest: "stat_ok e fs"
    and en: "encodable f" "list_all encodable fs"
    by (simp_all add: stat_ok_Cons)
  have r: "raised (scan_step d e s f) = None" using Cons.prems(1) ok by (rule raised_scan_step)
  have "json_encodable (JDict (updated_processed (scan_step d e s f)))"
    using Cons.prems(4) en(1)
    by (simp add: scan_step_cases[OF Cons.prems(1) ok] json_encodable_update
        del: json_encodable.simps(3))
  from Cons.IH[OF r rest en(2) this] show ?case by simp
qed

lemma merged_dtype_foldl:
  "raised s = None \<Longrightarrow> stat_ok e fs \<Longrightarrow> all_naive e fs \<Longrightarrow>
   merged_dtype s \<noteq> Some Object \<Longrightarrow> (\<forall>k. merged_dtype s \<noteq> Some (Aware k)) \<Longrightarrow>
   merged_dtype (foldl (scan_step d e) s fs) \<noteq> Some Object"
proof (induction fs arbitrary: s)
  case Nil
  then show ?case by simp
next
  case (Cons f fs)
  from Cons.prems have ok: "endswith f ''.csv'' \<longrightarrow> getmtime e f \<noteq> None" and rest: "stat_ok e fs"
    and nv: "case read_csv e f of Inl msg \<Rightarrow> True | Inr df \<Rightarrow> frame_dtype df = Naive"
      "all_naive e fs"
    by (simp_all add: stat_ok_Cons all_naive_def)
  have r: "raised (scan_step d e s f) = None" using Cons.prems(1) ok by (rule raised_scan_step)
  have cases: "merged_dtype s = None \<or> merged_dtype s = Some Naive"
    using Cons.prems(4,5) by (cases "merged_dtype s") (auto intro: ts_dtype.exhaust)
  have "merged_dtype (scan_step d e s f) = None \<or> merged_dtype (scan_step d e s f) = Some Naive"
    using cases nv(1)
    by (auto simp: scan_step_cases[OF Cons.prems(1) ok] split: sum.splits)
  then have "merged_dtype (scan_step d e s f) \<noteq> Some Object"
    "\<forall>k. merged_dtype (scan_step d e s f) \<noteq> Some (Aware k)" by auto
  from Cons.IH[OF r rest nv(2) this] show ?case by simp
qed

text \<open>The scan of a directory all of whose entries can be stat'ed.\<close>

lemma raised_scan_files: "raised (scan_files d e names) = None \<longleftrightarrow> stat_ok e names"
  by (simp add: scan_files_def raised_foldl scan_init_def stat_ok_sort)

lemma reads_scan_files:
  "stat_ok e names \<Longrightarrow>
   reads (scan_files d e names) = filter (needs_processing d e) (sort names)"
  by (simp add: scan_files_def reads_foldl scan_init_def stat_ok_sort)

lemma merged_df_scan_files:
  "stat_ok e names \<Longrightarrow>
   merged_df (scan_files d e names) =
     concat (map (rows_of e) (filter (needs_processing d e) (sort names)))"
  by (simp add: scan_files_def merged_df_foldl scan_init_def stat_ok_sort)


lemma new_data_loaded_scan_files:
  "stat_ok e names \<Longrightarrow>
   new_data_loaded (scan_files d e names) \<longleftrightarrow>
     (\<exists>f\<in>set names. needs_processing d e f \<and> parses e f)"
  by (simp add: scan_files_def new_data_loaded_foldl scan_init_def stat_ok_sort)

lemma updated_processed_scan_files:
  "stat_ok e names \<Longrightarrow>
   map_of (updated_processed (scan_files d e names)) k =
     (if k \<in> set names \<and> needs_processing d e k \<and> parses e k
      then map_option JNum (getmtime e k) else map_of d k)"
  by (simp add: scan_files_def updated_processed_foldl scan_init_def stat_ok_sort)

lemma encodable_scan_files:
  "stat_ok e names \<Longrightarrow> list_all encodable names \<Longrightarrow> json_encodable (JDict d) \<Longrightarrow>
   json_encodable (JDict (updated_processed (scan_files d e names)))"
  unfolding scan_files_def
  by (rule encodable_foldl) (simp_all add: scan_init_def stat_ok_sort list_all_iff)

lemma merged_dtype_scan_files:
  "stat_ok e names \<Longrightarrow> all_naive e names \<Longrightarrow>
   merged_dtype (scan_files d e names) \<noteq> Some Object"
  unfolding scan_files_def
  by (rule merged_dtype_foldl) (simp_all add: scan_init_def stat_ok_sort all_naive_def list_all_iff)

text \<open>The scan reads the environment only through the directory.\<close>

lemma scan_files_env_cong:
  assumes "getmtime e' = getmtime e" and "read_csv e' = read_csv e"
  shows "scan_files d e' = scan_files d e"
proof -
  have "scan_step d e' = scan_step d e"
    by (intro ext) (auto simp: scan_step_def assms split: option.splits)
  then show ?thesis by (intro ext) (simp add: scan_files_def)
qed

lemma load_processed_files_cases:
  "load_processed_files e = Inr (JDict d) \<longleftrightarrow>
     (status_file e = Stored (JDict d) \<or>
      d = [] \<and> (status_file e = Absent \<or> status_file e = Garbage \<or>
        (\<exists>xs. status_file e = Stored (JList xs))))"
  by (auto simp: load_processed_files_def split: status_file.splits json.splits)

lemma load_ok_access: "load_processed_files e = Inr j \<Longrightarrow> status_file e \<noteq> NoAccess"
  by (auto simp: load_processed_files_def)

subsection \<open>Well-formed ledgers and the sample rows\<close>



lemma sample_days:
  "date_only jan1_0800 = Some 19723" "date_only jan1_2000 = Some 19723"
  "date_only jan1_2000_gap = Some 19723" "date_only jan2_0800 = Some 19724"
  by (simp_all add: date_only_def ns_per_day_def jan1_0800_def jan1_2000_def
      jan1_2000_gap_def jan2_0800_def)

lemma sample_sorted:
  "sort_values stable_sort [jan1_2000, jan1_0800] = [jan1_0800, jan1_2000]"
  by (simp add: sort_values_def stable_sort_def stamp_def jan1_0800_def jan1_2000_def)

subsection \<open>Runs of the pipeline\<close>


lemma stat_ok_env_cong: "getmtime e' = getmtime e \<Longrightarrow> stat_ok e' = stat_ok e"
  by (intro ext) (simp add: stat_ok_def)

lemma parses_env_cong: "read_csv e' = read_csv e \<Longrightarrow> parses e' = parses e"
  by (intro ext) (simp add: parses_def)

lemma needs_processing_map_of_cong:
  "map_of d' f = map_of d f \<Longrightarrow> needs_processing d' e f = needs_processing d e f"
  by (simp add: needs_processing_def unchanged_def split: option.splits)




lemma run_load_raises:
  "load_processed_files e = Inl err \<Longrightarrow>
   load_and_merge_csv_files srt e = stop e (scan_init []) (Inl err)"
  by (simp add: load_and_merge_csv_files_def)

lemma run_not_dict:
  "load_processed_files e = Inr j \<Longrightarrow> \<forall>d. j \<noteq> JDict d \<Longrightarrow>
   load_and_merge_csv_files srt e = stop e (scan_init []) (Inl AttributeError)"
  by (cases j) (simp_all add: load_and_merge_csv_files_def)


lemma run_finish:
  "load_processed_files e = Inr (JDict d) \<Longrightarrow> listdir e = Some names \<Longrightarrow>
   load_and_merge_csv_files srt e = finish srt e (scan_files d e names)"
  by (simp add: load_and_merge_csv_files_def)

lemma finish_new_data:
  assumes "raised s = None" and "new_data_loaded s" and "merged_dtype s \<noteq> Some Object"
    and "writable e" and "status_file e \<noteq> NoAccess"
    and "json_encodable (JDict (updated_processed s))"
  shows "finish srt e s =
     stop (e\<lparr>cache_file := Cache (dedup srt (merged_df s)),
              status_file := Stored (JDict (updated_processed s))\<rparr>) s
       (Inr (dedup srt (merged_df s), True))"
  using assms
  by (simp add: finish_def Let_def save_processed_files_def del: json_encodable.simps)

lemma finish_no_new_data:
  assumes "raised s = None" and "\<not> new_data_loaded s"
  shows "finish srt e s =
     stop e s (case cache_file e of
         Cache cached \<Rightarrow> Inr (cached, False)
       | BadCache \<Rightarrow> Inl UnpicklingError
       | NoCache \<Rightarrow> Inr ([], False))"
  using assms by (simp add: finish_def split: cache.splits)

text \<open>What a run that returns has done.\<close>

lemma finish_returns:
  assumes "outcome (finish srt e s) = Inr (D, b)"
  shows "raised s = None \<and>
     (if b then new_data_loaded s \<and> D = dedup srt (merged_df s) \<and>
          env_after (finish srt e s) =
            e\<lparr>cache_file := Cache D, status_file := Stored (JDict (updated_processed s))\<rparr>
      else \<not> new_data_loaded s \<and> env_after (finish srt e s) = e \<and>
          (cache_file e = Cache D \<or> cache_file e = NoCache \<and> D = []))"
  using assms
  by (auto simp: finish_def stop_def Let_def save_processed_files_def
      split: option.splits if_splits cache.splits simp del: json_encodable.simps)

lemma stop_simps:
  "env_after (stop e s res) = e" "errors_shown (stop e s res) = st_errors s"
  "files_read (stop e s res) = reads s" "outcome (stop e s res) = res"
  by (simp_all add: stop_def)


lemma run_returns:
  assumes "outcome (load_and_merge_csv_files srt e) = Inr (D, b)"
  obtains d names where "load_processed_files e = Inr (JDict d)" and "listdir e = Some names"
    and "stat_ok e names"
    and "load_and_merge_csv_files srt e = finish srt e (scan_files d e names)"
proof -
  from assms obtain d where ld: "load_processed_files e = Inr (JDict d)"
    by (auto simp: load_and_merge_csv_files_def stop_def split: sum.splits json.splits)
  with assms obtain names where ls: "listdir e = Some names"
    by (auto simp: load_and_merge_csv_files_def stop_def split: option.splits)
  have run: "load_and_merge_csv_files srt e = finish srt e (scan_files d e names)"
    using ld ls by (rule run_finish)
  with assms have "raised (scan_files d e names) = None"
    by (simp add: finish_returns)
  then have "stat_ok e names" by (simp add: raised_scan_files)
  with ld ls show ?thesis using run by (rule that)
qed


text \<open>The environment that a run with new data leaves behind.\<close>

lemma after_save:
  assumes "e1 = e\<lparr>cache_file := Cache D, status_file := Stored (JDict up)\<rparr>"
  shows "load_processed_files e1 = Inr (JDict up)" and "cache_file e1 = Cache D"
    and "scan_files d' e1 = scan_files d' e" and "listdir e1 = listdir e"
    and "getmtime e1 = getmtime e" and "read_csv e1 = read_csv e"
    and "writable e1 = writable e"
proof -
  show "listdir e1 = listdir e" and g: "getmtime e1 = getmtime e"
    and r: "read_csv e1 = read_csv e" and "cache_file e1 = Cache D"
    and "writable e1 = writable e"
    by (simp_all add: assms)
  show "load_processed_files e1 = Inr (JDict up)"
    by (simp add: assms load_processed_files_def)
  show "scan_files d' e1 = scan_files d' e" using g r by (rule scan_files_env_cong)
qed

text \<open>After a run, no file of the directory that parses still needs processing.\<close>

lemma updated_ledger_settles:
  assumes "stat_ok e names" and "parses e f" and "f \<in> set names"
  shows "\<not> needs_processing (updated_processed (scan_files d e names)) e f"
proof (cases "needs_processing d e f")
  case True
  then have "map_of (updated_processed (scan_files d e names)) f =
      map_option JNum (getmtime e f)"
    using assms by (simp add: updated_processed_scan_files)
  then show ?thesis
    by (auto simp: needs_processing_def unchanged_def split: option.splits)
next
  case False
  then have "map_of (updated_processed (scan_files d e names)) f = map_of d f"
    using assms(1) by (auto simp: updated_processed_scan_files)
  then have "needs_processing (updated_processed (scan_files d e names)) e f =
      needs_processing d e f"
    by (rule needs_processing_map_of_cong)
  with False show ?thesis by simp
qed

text \<open>The frame of a single complete row.\<close>

lemma sort_values_single: "sorts_by_ts srt \<Longrightarrow> sort_values srt [x] = [x]"
proof -
  assume "sorts_by_ts srt"
  then have "mset (sort_values srt [x]) = mset [x]" by (rule mset_sort_values)
  then have "length (sort_values srt [x]) = 1" and "set (sort_values srt [x]) = {x}"
    by (auto dest: mset_eq_length mset_eq_setD)
  then show ?thesis by (cases "sort_values srt [x]") auto
qed

lemma dedup_complete_rows:
  assumes "sorts_by_ts srt" and "day_keys rows = ds"
    and "\<forall>d\<in>set ds. \<forall>c. cells (last (day_group (sort_values srt rows) d)) c = None \<longrightarrow>
        (\<forall>y\<in>set (day_group (sort_values srt rows) d). cells y c = None)"
  shows "dedup srt rows = map (\<lambda>d. last (day_group (sort_values srt rows) d)) ds"
proof -
  have "agg_last (day_group (sort_values srt rows) d) = last (day_group (sort_values srt rows) d)"
    if "d \<in> set ds" for d
  proof (rule agg_last_complete)
    have "d \<in> set (day_keys (sort_values srt rows))"
      using that assms(1,2) by (simp add: day_keys_sort_values)
    then show "day_group (sort_values srt rows) d \<noteq> []" by (rule day_group_nonempty)
    show "\<forall>r\<in>set (day_group (sort_values srt rows) d). ts r \<noteq> None"
      by (auto simp: set_day_group dest: date_only_ts)
    show "\<forall>c. cells (last (day_group (sort_values srt rows) d)) c = None \<longrightarrow>
        (\<forall>y\<in>set (day_group (sort_values srt rows) d). cells y c = None)"
      using assms(3) that by blast
  qed
  then show ?thesis using assms(1,2) by (simp add: dedup_groups)
qed

lemma sample_dedup:
  "dedup stable_sort [jan2_0800] = [jan2_0800]"
  "dedup stable_sort [jan1_0800, jan1_2000] = [jan1_2000]"
  "dedup stable_sort [jan1_0800, jan1_2000, jan2_0800] = [jan1_2000, jan2_0800]"
proof -
  have s1: "sort_values stable_sort [jan2_0800] = [jan2_0800]"
    and s2: "sort_values stable_sort [jan1_0800, jan1_2000] = [jan1_0800, jan1_2000]"
    and s3: "sort_values stable_sort [jan1_0800, jan1_2000, jan2_0800] =
        [jan1_0800, jan1_2000, jan2_0800]"
    by (simp_all add: sort_values_def stable_sort_def stamp_def jan1_0800_def jan1_2000_def
        jan2_0800_def)
  have k1: "day_keys [jan2_0800] = [19724]"
    and k2: "day_keys [jan1_0800, jan1_2000] = [19723]"
    and k3: "day_keys [jan1_0800, jan1_2000, jan2_0800] = [19723, 19724]"
    by (simp_all add: day_keys_def List.map_filter_def sample_days)
  have full: "cells jan1_2000 c = None \<longrightarrow> cells jan1_0800 c = None" for c
    by (simp add: jan1_0800_def jan1_2000_def)
  show "dedup stable_sort [jan2_0800] = [jan2_0800]"
    by (subst dedup_complete_rows[OF sorts_by_ts_stable_sort k1])
      (simp_all add: s1 day_group_def sample_days)
  show "dedup stable_sort [jan1_0800, jan1_2000] = [jan1_2000]"
    by (subst dedup_complete_rows[OF sorts_by_ts_stable_sort k2])
      (simp_all add: s2 day_group_def sample_days full)
  show "dedup stable_sort [jan1_0800, jan1_2000, jan2_0800] = [jan1_2000, jan2_0800]"
    by (subst dedup_complete_rows[OF sorts_by_ts_stable_sort k3])
      (simp_all add: s3 day_group_def sample_days full)
qed

text \<open>
  What is known of \<^verbatim>\<open>sort_values\<close> does not fix the row that is kept among equal
  timestamps: two sorts that both satisfy \<open>sorts_by_ts\<close> keep different rows.
\<close>

lemma tie_winner_depends_on_sort:
  "sorts_by_ts (reverse_sort :: real row list \<Rightarrow> real row list)"
  "dedup stable_sort [tie_a, tie_b] = [tie_b]"
  "dedup reverse_sort [tie_a, tie_b] = [tie_a]"
proof -
  show r: "sorts_by_ts (reverse_sort :: real row list \<Rightarrow> real row list)"
    by (simp add: sorts_by_ts_def reverse_sort_def)
  have d: "date_only tie_a = Some 19723" "date_only tie_b = Some 19723"
    by (simp_all add: date_only_def ns_per_day_def tie_a_def tie_b_def)
  have k: "day_keys [tie_a, tie_b] = [19723]"
    by (simp add: day_keys_def List.map_filter_def d)
  have s1: "sort_values stable_sort [tie_a, tie_b] = [tie_a, tie_b]"
    and s2: "sort_values reverse_sort [tie_a, tie_b] = [tie_b, tie_a]"
    by (simp_all add: sort_values_def stable_sort_def reverse_sort_def stamp_def
        tie_a_def tie_b_def)
  have full: "cells tie_b c = None \<longleftrightarrow> cells tie_a c = None" for c
    by (simp add: tie_a_def tie_b_def)
  show "dedup stable_sort [tie_a, tie_b] = [tie_b]"
    by (subst dedup_complete_rows[OF sorts_by_ts_stable_sort k])
      (simp_all add: s1 day_group_def d full)
  show "dedup reverse_sort [tie_a, tie_b] = [tie_a]"
    by (subst dedup_complete_rows[OF r k]) (simp_all add: s2 day_group_def d full)
qed

subsection \<open>What holds of the ledger store and of the cold start\<close>

text \<open>
  When the ledger file is absent, cannot be parsed or holds a list, the load returns
  the empty mapping; a mapping is returned as it is.
\<close>

lemma load_processed_files_degrades:
  "(status_file e = Absent \<or> status_file e = Garbage \<or> status_file e = Stored (JList xs)
      \<longrightarrow> load_processed_files e = Inr (JDict [])) \<and>
   (status_file e = Stored (JDict d) \<longrightarrow> load_processed_files e = Inr (JDict d))"
  by (auto simp: load_processed_files_def)

text \<open>A ledger that can be encoded and written is loaded as it was saved.\<close>

lemma ledger_round_trip:
  assumes "json_encodable (JDict L)" and "writable e" and "status_file e \<noteq> NoAccess"
  shows "snd (save_processed_files L e) = None \<and>
     load_processed_files (fst (save_processed_files L e)) = Inr (JDict L)"
  using assms
  by (simp add: save_processed_files_def load_processed_files_def del: json_encodable.simps)

text \<open>
  With a ledger that loads as a mapping, entries that can be stat'ed, no snapshot and
  no file that is both due and parseable, the run returns the empty frame and the page
  shows that there is no valid data.
\<close>

lemma cold_start_no_valid_data:
  assumes "load_processed_files e = Inr (JDict d)" and "listdir e = Some names"
    and "stat_ok e names" and "cache_file e = NoCache"
    and "\<forall>f\<in>set names. \<not> (needs_processing d e f \<and> parses e f)"
  shows "outcome (load_and_merge_csv_files srt e) = Inr ([], False) \<and>
     env_after (load_and_merge_csv_files srt e) = e \<and> main srt e = Inr NoValidData"
proof -
  have r: "raised (scan_files d e names) = None" using assms(3) by (simp add: raised_scan_files)
  have "\<not> new_data_loaded (scan_files d e names)"
    using assms(3,5) by (simp add: new_data_loaded_scan_files)
  from finish_no_new_data[OF r this, of srt e] assms(4) show ?thesis
    by (simp add: main_def run_finish[OF assms(1,2)] stop_simps)
qed





lemma second_export_run:
  "load_and_merge_csv_files stable_sort second_export_env =
     stop (second_export_env\<lparr>cache_file := Cache [jan2_0800],
             status_file := Stored (JDict (updated_processed
               (scan_files [(''a.csv'', JNum 100)] second_export_env [''b.csv'', ''a.csv''])))\<rparr>)
       (scan_files [(''a.csv'', JNum 100)] second_export_env [''b.csv'', ''a.csv''])
       (Inr ([jan2_0800], True))"
  "reads (scan_files [(''a.csv'', JNum 100)] second_export_env [''b.csv'', ''a.csv'']) =
     [''b.csv'']"
proof -
  let ?e = second_export_env and ?d = "[(''a.csv'', JNum 100)]"
  let ?names = "[''b.csv'', ''a.csv'']"
  let ?s = "scan_files ?d ?e ?names"
  have ld: "load_processed_files ?e = Inr (JDict ?d)"
    by (simp add: load_processed_files_def second_export_env_def)
  have ls: "listdir ?e = Some ?names" by (simp add: second_export_env_def)
  have ok: "stat_ok ?e ?names" by (simp add: stat_ok_def second_export_env_def)
  have due: "filter (needs_processing ?d ?e) (sort ?names) = [''b.csv'']"
    by (simp add: needs_processing_def endswith_def unchanged_def second_export_env_def)
  have rd: "reads ?s = [''b.csv'']" by (simp only: reads_scan_files[OF ok] due)
  have "merged_df ?s = concat (map (rows_of ?e) [''b.csv''])"
    by (simp only: merged_df_scan_files[OF ok] due)
  then have m: "merged_df ?s = [jan2_0800]"
    by (simp add: rows_of_def second_export_env_def)
  have new: "new_data_loaded ?s"
    using ok
    by (simp add: new_data_loaded_scan_files needs_processing_def endswith_def unchanged_def
        parses_def second_export_env_def)
  have "unhindered ?e ?names ?d"
    using ok
    by (simp add: unhindered_def all_naive_def sample_names_encodable second_export_env_def)
  then have nv: "all_naive ?e ?names" and w: "writable ?e"
    and en: "list_all encodable ?names" "json_encodable (JDict ?d)"
    by (simp_all add: unhindered_def del: json_encodable.simps)
  have "raised ?s = None" using ok by (simp add: raised_scan_files)
  then have "finish stable_sort ?e ?s =
      stop (?e\<lparr>cache_file := Cache (dedup stable_sort (merged_df ?s)),
                status_file := Stored (JDict (updated_processed ?s))\<rparr>) ?s
        (Inr (dedup stable_sort (merged_df ?s), True))"
    using new merged_dtype_scan_files[OF ok nv] w load_ok_access[OF ld]
      encodable_scan_files[OF ok en]
    by (rule finish_new_data)
  then have run: "load_and_merge_csv_files stable_sort ?e =
      stop (?e\<lparr>cache_file := Cache [jan2_0800],
                status_file := Stored (JDict (updated_processed ?s))\<rparr>) ?s
        (Inr ([jan2_0800], True))"
    by (simp add: run_finish[OF ld ls] m sample_dedup)
  show "load_and_merge_csv_files stable_sort ?e =
      stop (?e\<lparr>cache_file := Cache [jan2_0800],
                status_file := Stored (JDict (updated_processed ?s))\<rparr>) ?s
        (Inr ([jan2_0800], True))"
    by (rule run)
  show "reads ?s = [''b.csv'']" by (rule rd)
qed


section \<open>The claims\<close>

text \<open>
  Claim C1 fails on the code. The frame is built from the files read in this run only
  (\<^verbatim>\<open>merged_df\<close> starts empty and the snapshot is never read on this path). Here the
  snapshot holds 1 January, from \<^verbatim>\<open>a.csv\<close>, which the ledger lets the run skip; the
  new \<^verbatim>\<open>b.csv\<close> holds 2 January. The run returns 2 January alone and overwrites the
  snapshot with it.
\<close>

theorem snapshot_days_lost:
  "outcome (load_and_merge_csv_files stable_sort second_export_env) =
     Inr ([jan2_0800], True) \<and>
   files_read (load_and_merge_csv_files stable_sort second_export_env) = [''b.csv''] \<and>
   cache_file second_export_env = Cache [jan1_2000] \<and>
   cache_file (env_after (load_and_merge_csv_files stable_sort second_export_env)) =
     Cache [jan2_0800] \<and>
   date_only jan1_2000 = Some 19723 \<and> date_only jan2_0800 = Some 19724"
proof -
  have "cache_file second_export_env = Cache [jan1_2000]"
    by (simp add: second_export_env_def)
  then show ?thesis by (simp add: second_export_run stop_simps sample_days)
qed

text \<open>
  Claim C2 fails on the code. \<^verbatim>\<open>GroupBy.last\<close> does not keep the last row of a
  group; it takes the last entry of each column that is not missing. Of two rows of
  1 January, the later one with its body-fat cell empty, the output row has the later
  timestamp and weight and the earlier body-fat value, so it is neither input row.
  (The order of rows with equal timestamps is left to \<^verbatim>\<open>sort_values\<close>, whose default
  algorithm keeps no order among them; the parameter \<open>srt\<close> fixes none either.)
\<close>

theorem dedup_fills_gaps_from_earlier_rows:
  "length (dedup stable_sort [jan1_0800, jan1_2000_gap]) = 1 \<and>
   ts (hd (dedup stable_sort [jan1_0800, jan1_2000_gap])) = ts jan1_2000_gap \<and>
   cells (hd (dedup stable_sort [jan1_0800, jan1_2000_gap])) ''weight'' = Some 59.5 \<and>
   cells (hd (dedup stable_sort [jan1_0800, jan1_2000_gap])) ''fat'' = Some 20 \<and>
   cells jan1_2000_gap ''fat'' = None \<and>
   cells jan1_0800 ''weight'' = Some 60 \<and>
   hd (dedup stable_sort [jan1_0800, jan1_2000_gap]) \<noteq> jan1_2000_gap \<and>
   hd (dedup stable_sort [jan1_0800, jan1_2000_gap]) \<noteq> jan1_0800"
proof -
  let ?out = "hd (dedup stable_sort [jan1_0800, jan1_2000_gap])"
  have so: "sort_values stable_sort [jan1_0800, jan1_2000_gap] = [jan1_0800, jan1_2000_gap]"
    by (simp add: sort_values_def stable_sort_def stamp_def jan1_0800_def jan1_2000_gap_def)
  have gl: "groupby_last [jan1_0800, jan1_2000_gap] = [agg_last [jan1_0800, jan1_2000_gap]]"
    by (simp add: groupby_last_def day_keys_def day_group_def List.map_filter_def sample_days)
  have "sort_values stable_sort [agg_last [jan1_0800, jan1_2000_gap]]
      = [agg_last [jan1_0800, jan1_2000_gap]]"
    by (simp add: sort_values_def stable_sort_def)
  then have D: "dedup stable_sort [jan1_0800, jan1_2000_gap] = [agg_last [jan1_0800, jan1_2000_gap]]"
    by (simp add: dedup_def so gl)
  have out: "?out = agg_last [jan1_0800, jan1_2000_gap]" by (simp add: D)
  have t: "ts ?out = ts jan1_2000_gap"
    unfolding out by (simp add: agg_last_def last_valid_def jan1_0800_def jan1_2000_gap_def)
  have w: "cells ?out ''weight'' = Some 59.5"
    unfolding out by (simp add: agg_last_def last_valid_def jan1_0800_def jan1_2000_gap_def)
  have f: "cells ?out ''fat'' = Some 20"
    unfolding out by (simp add: agg_last_def last_valid_def jan1_0800_def jan1_2000_gap_def)
  have f': "cells jan1_2000_gap ''fat'' = None" by (simp add: jan1_2000_gap_def)
  have w': "cells jan1_0800 ''weight'' = Some 60" by (simp add: jan1_0800_def)
  have n1: "?out \<noteq> jan1_2000_gap" using f f' by auto
  have n2: "?out \<noteq> jan1_0800" using w w' by auto
  show ?thesis using t w f f' w' n1 n2 by (simp add: D)
qed


text \<open>
  Claim C3. Whatever rows go in, and however many of them share a day, the frame that
  lines 83 to 86 produce has at most one row per calendar day, every row has a
  timestamp, and the timestamps ascend strictly.
\<close>

theorem dedup_one_row_per_day_ascending:
  assumes "sorts_by_ts srt"
  shows "distinct (map date_only (dedup srt rows)) \<and>
     (\<forall>r\<in>set (dedup srt rows). ts r \<noteq> None) \<and>
     sorted_wrt (<) (map stamp (dedup srt rows))"
proof -
  let ?G = "groupby_last (sort_values srt rows)"
  let ?day = "\<lambda>r::'a row. stamp r div ns_per_day"
  have eq: "dedup srt rows = ?G" using assms by (rule dedup_eq)
  have d1: "distinct (map date_only ?G)"
    by (simp add: date_only_groupby_last distinct_map distinct_day_keys)
  have d2: "\<forall>r\<in>set ?G. ts r \<noteq> None" by (simp add: ts_groupby_last)
  have "sort_values srt ?G = srt ?G"
    using d2 by (rule sort_values_no_NaT)
  then have "srt ?G = ?G" using final_sort_id[OF assms, of "sort_values srt rows"] by simp
  moreover have "sorted (map stamp (srt ?G))" using assms by (simp add: sorts_by_ts_def)
  ultimately have so: "sorted (map stamp ?G)" by simp
  have "distinct (map ?day ?G)" by (simp add: day_of_groupby_last distinct_day_keys)
  then have ij: "inj_on ((\<lambda>t. t div ns_per_day) \<circ> stamp) (set ?G)" and di: "distinct ?G"
    by (simp_all add: distinct_map comp_def)
  have "inj_on stamp (set ?G)" using ij by (rule inj_on_imageI2)
  with di have "distinct (map stamp ?G)" by (simp add: distinct_map)
  with so have "sorted_wrt (<) (map stamp ?G)" by (simp add: strict_sorted_iff)
  with d1 d2 eq show ?thesis by simp
qed

theorem dedup_one_row_per_day_ascending_witness:
  "distinct (map date_only (dedup stable_sort [jan1_2000, jan2_0800, jan1_0800, jan1_2000_gap])) \<and>
   sorted_wrt (<) (map stamp (dedup stable_sort [jan1_2000, jan2_0800, jan1_0800, jan1_2000_gap])) \<and>
   map date_only (dedup stable_sort [jan1_2000, jan2_0800, jan1_0800, jan1_2000_gap]) =
     [Some 19723, Some 19724]"
  using dedup_one_row_per_day_ascending [OF sorts_by_ts_stable_sort,
      of "[jan1_2000, jan2_0800, jan1_0800, jan1_2000_gap]"]
    date_only_dedup [OF sorts_by_ts_stable_sort,
      of "[jan1_2000, jan2_0800, jan1_0800, jan1_2000_gap]"]
  by (simp add: day_keys_def List.map_filter_def sample_days)






text \<open>
  Claim C6 fails on the code for a ledger file that exists and cannot be opened:
  \<^verbatim>\<open>open(STATUS_FILE, "r")\<close> stands outside the \<^verbatim>\<open>try\<close>, so the load raises
  to its caller, and the run and the script with it, instead of returning the empty
  mapping. (In the other states that the claim names the load does what the claim
  says: \<open>load_processed_files_degrades\<close>.)
\<close>

theorem load_raises_when_open_fails:
  "load_processed_files (cold_env\<lparr>status_file := NoAccess\<rparr>) = Inl OSError \<and>
   outcome (load_and_merge_csv_files stable_sort (cold_env\<lparr>status_file := NoAccess\<rparr>)) =
     Inl OSError \<and>
   main stable_sort (cold_env\<lparr>status_file := NoAccess\<rparr>) = Inl OSError"
  by (simp add: load_processed_files_def load_and_merge_csv_files_def main_def stop_def)

text \<open>
  Claim C7. When a run has returned, a second run over the same data directory returns
  the same frame, reports no new data and leaves the ledger file and the snapshot as
  the first run left them.
\<close>

theorem second_run_changes_nothing:
  assumes "outcome (load_and_merge_csv_files srt e) = Inr (D, b)"
  shows "outcome (load_and_merge_csv_files srt
       (env_after (load_and_merge_csv_files srt e))) = Inr (D, False) \<and>
     env_after (load_and_merge_csv_files srt
       (env_after (load_and_merge_csv_files srt e))) =
     env_after (load_and_merge_csv_files srt e)"
proof -
  from assms obtain d names where ld: "load_processed_files e = Inr (JDict d)"
    and ls: "listdir e = Some names" and ok: "stat_ok e names"
    and run: "load_and_merge_csv_files srt e = finish srt e (scan_files d e names)"
    by (rule run_returns)
  let ?s = "scan_files d e names"
  from assms run have out: "outcome (finish srt e ?s) = Inr (D, b)" by simp
  show ?thesis
  proof (cases b)
    case True
    let ?up = "updated_processed ?s"
    let ?e1 = "e\<lparr>cache_file := Cache D, status_file := Stored (JDict ?up)\<rparr>"
    from finish_returns[OF out] True have e1: "env_after (finish srt e ?s) = ?e1" by simp
    have ld1: "load_processed_files ?e1 = Inr (JDict ?up)"
      and c1: "cache_file ?e1 = Cache D"
      and s1: "scan_files ?up ?e1 = scan_files ?up e"
      and ls1: "listdir ?e1 = listdir e" and g1: "getmtime ?e1 = getmtime e"
      by (rule after_save[OF refl])+
    let ?s2 = "scan_files ?up ?e1 names"
    have ok1: "stat_ok ?e1 names" using ok by (simp add: stat_ok_env_cong[OF g1])
    then have r2: "raised ?s2 = None" by (simp add: raised_scan_files)
    have "\<not> new_data_loaded (scan_files ?up e names)"
      using updated_ledger_settles[OF ok, of _ d] by (auto simp: new_data_loaded_scan_files[OF ok])
    then have n2: "\<not> new_data_loaded ?s2" by (simp add: s1)
    have "load_and_merge_csv_files srt ?e1 = finish srt ?e1 ?s2"
      using ld1 ls1 ls by (simp add: run_finish)
    also have "\<dots> = stop ?e1 ?s2 (Inr (D, False))"
      using finish_no_new_data[OF r2 n2, of srt ?e1] by (simp only: c1 cache.case)
    finally show ?thesis by (simp add: run e1 stop_simps)
  next
    case False
    with finish_returns[OF out] have "env_after (finish srt e ?s) = e" by simp
    with assms False show ?thesis by (simp add: run)
  qed
qed

theorem second_run_changes_nothing_witness:
  "outcome (load_and_merge_csv_files stable_sort second_export_env) =
     Inr ([jan2_0800], True) \<and>
   outcome (load_and_merge_csv_files stable_sort
     (env_after (load_and_merge_csv_files stable_sort second_export_env))) =
     Inr ([jan2_0800], False) \<and>
   env_after (load_and_merge_csv_files stable_sort
     (env_after (load_and_merge_csv_files stable_sort second_export_env))) =
   env_after (load_and_merge_csv_files stable_sort second_export_env)"
proof -
  have out: "outcome (load_and_merge_csv_files stable_sort second_export_env) =
      Inr ([jan2_0800], True)"
    by (simp add: second_export_run(1) stop_simps)
  from second_run_changes_nothing[OF out] out show ?thesis by simp
qed

text \<open>
  Claim C8 fails on the code. With an empty data directory and no snapshot the script
  still crashes when the ledger file holds a JSON value that is neither a list nor a
  mapping (\<^verbatim>\<open>null\<close> here): the load returns it as it is and \<^verbatim>\<open>processed.copy()\<close>
  raises. It crashes as well when the only entry of the directory is a dangling link
  \<^verbatim>\<open>x.csv\<close>, since \<^verbatim>\<open>os.path.getmtime\<close> stands outside the \<^verbatim>\<open>try\<close>. (With a
  ledger that loads as a mapping and entries that can be stat'ed the claim holds:
  \<open>cold_start_no_valid_data\<close>.)
\<close>

theorem cold_start_crashes:
  "listdir (cold_env\<lparr>status_file := Stored JNull\<rparr>) = Some [] \<and>
   cache_file (cold_env\<lparr>status_file := Stored JNull\<rparr>) = NoCache \<and>
   main stable_sort (cold_env\<lparr>status_file := Stored JNull\<rparr>) = Inl AttributeError \<and>
   status_file (cold_env\<lparr>listdir := Some [''x.csv'']\<rparr>) = Absent \<and>
   cache_file (cold_env\<lparr>listdir := Some [''x.csv'']\<rparr>) = NoCache \<and>
   getmtime (cold_env\<lparr>listdir := Some [''x.csv'']\<rparr>) ''x.csv'' = None \<and>
   main stable_sort (cold_env\<lparr>listdir := Some [''x.csv'']\<rparr>) = Inl OSError"
  by (simp add: cold_env_def main_def load_and_merge_csv_files_def load_processed_files_def
      stop_def finish_def scan_files_def scan_step_def scan_init_def endswith_def)

text \<open>
  Claim C9 fails on the code. A ledger that maps a file name that is not UTF-8 to a
  number is well-formed, and the scan puts such names into the ledger; but
  \<^verbatim>\<open>json.dump(..., ensure_ascii=False)\<close> cannot encode the name: the save raises
  and leaves a truncated file, from which the load returns the empty mapping. (For a
  ledger that can be encoded the round trip holds: \<open>ledger_round_trip\<close>.)
\<close>

theorem ledger_lost_on_odd_name:
  "well_formed [(odd_name, JNum 100)] \<and>
   save_processed_files [(odd_name, JNum 100)] cold_env =
     (cold_env\<lparr>status_file := Garbage\<rparr>, Some UnicodeEncodeError) \<and>
   load_processed_files (fst (save_processed_files [(odd_name, JNum 100)] cold_env)) =
     Inr (JDict []) \<and>
   outcome (load_and_merge_csv_files stable_sort odd_env) = Inl UnicodeEncodeError \<and>
   status_file (env_after (load_and_merge_csv_files stable_sort odd_env)) = Garbage \<and>
   cache_file (env_after (load_and_merge_csv_files stable_sort odd_env)) = Cache [jan2_0800]"
proof -
  have a: "well_formed [(odd_name, JNum 100)] \<and>
      save_processed_files [(odd_name, JNum 100)] cold_env =
        (cold_env\<lparr>status_file := Garbage\<rparr>, Some UnicodeEncodeError) \<and>
      load_processed_files (fst (save_processed_files [(odd_name, JNum 100)] cold_env)) =
        Inr (JDict [])"
    using odd_name_not_encodable
    by (simp add: well_formed_def save_processed_files_def load_processed_files_def
        cold_env_def)
  have ew: "endswith odd_name ''.csv''" by (simp add: endswith_def odd_name_def)
  have s: "scan_files [] odd_env [odd_name] =
      \<lparr>merged_df = [jan2_0800], merged_dtype = Some Naive,
       updated_processed = [(odd_name, JNum 100)], new_data_loaded = True,
       raised = None, st_errors = [], reads = [odd_name]\<rparr>"
    using ew
    by (simp add: scan_files_def scan_step_def scan_init_def unchanged_def odd_env_def)
  have w: "writable odd_env" "status_file odd_env = Absent" by (simp_all add: odd_env_def)
  have "load_and_merge_csv_files stable_sort odd_env =
      finish stable_sort odd_env (scan_files [] odd_env [odd_name])"
    by (rule run_finish) (simp_all add: load_processed_files_def odd_env_def)
  also have "\<dots> = stop (odd_env\<lparr>cache_file := Cache [jan2_0800], status_file := Garbage\<rparr>)
      (scan_files [] odd_env [odd_name]) (Inl UnicodeEncodeError)"
    using odd_name_not_encodable w
    by (simp add: s finish_def sample_dedup save_processed_files_def)
  finally have b: "outcome (load_and_merge_csv_files stable_sort odd_env) =
        Inl UnicodeEncodeError \<and>
      status_file (env_after (load_and_merge_csv_files stable_sort odd_env)) = Garbage \<and>
      cache_file (env_after (load_and_merge_csv_files stable_sort odd_env)) =
        Cache [jan2_0800]"
    by (simp add: stop_simps)
  from a b show ?thesis by blast
qed




end
